theory Spec2Isabelle
  imports Main "HOL-Library.Multiset"
begin

section \<open>The UV packing engine of mcblend (operator\_func/uv.py)\<close>

subsection \<open>Data model\<close>

text \<open>
  \<^verbatim>\<open>class UvCorner(Enum)\<close>: the corner of a box that a suggested point names.
\<close>

datatype UvCorner = TOP_RIGHT | TOP_LEFT | BOTTOM_RIGHT | BOTTOM_LEFT

text \<open>
  A suggestion is the Python tuple \<^verbatim>\<open>((u, v), corner)\<close>. Coordinates are Python
  integers, so they are unbounded.
\<close>

type_synonym suggestion = "(int \<times> int) \<times> UvCorner"

text \<open>
  \<^verbatim>\<open>class UvBox\<close>. The attribute \<^verbatim>\<open>size\<close> is called \<open>size_box\<close> here, since
  \<open>size\<close> is a constant of HOL.
\<close>

record UvBox =
  size_box :: "int \<times> int"
  uv :: "int \<times> int"
  is_mapped :: bool

text \<open>
  \<^verbatim>\<open>class UvMcCube(UvBox)\<close>: the record extends \<open>UvBox\<close> as the class does, so every
  function on \<open>'a UvBox_scheme\<close> is inherited. The attributes \<^verbatim>\<open>top\<close> and
  \<^verbatim>\<open>back\<close> are called \<open>top_box\<close> and \<open>back_box\<close>: \<open>top\<close> is a constant of HOL and
  \<open>back\<close> a command of Isabelle.
\<close>

record UvMcCube = UvBox +
  depth :: int
  height :: int
  width :: int
  right :: UvBox
  front :: UvBox
  left :: UvBox
  back_box :: UvBox
  top_box :: UvBox
  bottom :: UvBox

subsection \<open>UvBox\<close>

text \<open>
  \<^verbatim>\<open>UvBox.__init__(size, uv=None)\<close>. The body has no check, assertion or raise:
  it stores what it is given.
\<close>

definition UvBox_init :: "int \<times> int \<Rightarrow> (int \<times> int) option \<Rightarrow> UvBox" where
  "UvBox_init sz uvo =
     (case uvo of
        None \<Rightarrow> \<lparr>size_box = sz, uv = (0, 0), is_mapped = False\<rparr>
      | Some p \<Rightarrow> \<lparr>size_box = sz, uv = p, is_mapped = True\<rparr>)"

text \<open>\<^verbatim>\<open>UvBox.collides(self, other)\<close>: reads \<^verbatim>\<open>uv\<close> and \<^verbatim>\<open>size\<close> of both.\<close>

definition UvBox_collides :: "'a UvBox_scheme \<Rightarrow> 'b UvBox_scheme \<Rightarrow> bool" where
  "UvBox_collides self other =
     (let self_x = (fst (uv self), fst (uv self) + fst (size_box self));
          self_y = (snd (uv self), snd (uv self) + snd (size_box self));
          other_x = (fst (uv other), fst (uv other) + fst (size_box other));
          other_y = (snd (uv other), snd (uv other) + snd (size_box other))
      in fst self_x < snd other_x \<and> fst other_x < snd self_x \<and>
         fst self_y < snd other_y \<and> fst other_y < snd self_y)"

text \<open>\<^verbatim>\<open>UvBox.suggest_positions(self)\<close>: the eight points, in the source's order.\<close>

definition UvBox_suggest_positions :: "'a UvBox_scheme \<Rightarrow> suggestion list" where
  "UvBox_suggest_positions self =
     (let ss = (fst (size_box self) - 1, snd (size_box self) - 1);
          p = uv self
      in [((fst p, snd p - 1), BOTTOM_LEFT),
          ((fst p + fst ss, snd p - 1), BOTTOM_RIGHT),
          ((fst p + fst ss + 1, snd p), TOP_LEFT),
          ((fst p + fst ss + 1, snd p + snd ss), BOTTOM_LEFT),
          ((fst p + fst ss, snd p + snd ss + 1), TOP_RIGHT),
          ((fst p, snd p + snd ss + 1), TOP_LEFT),
          ((fst p - 1, snd p + snd ss), BOTTOM_RIGHT),
          ((fst p - 1, snd p), TOP_RIGHT)])"

text \<open>
  The position that \<^verbatim>\<open>apply_suggestion\<close> assigns to \<^verbatim>\<open>self.uv\<close>: the
  \<^verbatim>\<open>if/elif\<close> chain over the four corners. The assignment itself goes through the
  \<^verbatim>\<open>uv\<close> setter of the object's class, so it is written once per class below.
\<close>

definition suggestion_uv :: "'a UvBox_scheme \<Rightarrow> suggestion \<Rightarrow> int \<times> int" where
  "suggestion_uv self suggestion =
     (let ss = (fst (size_box self) - 1, snd (size_box self) - 1)
      in case snd suggestion of
           TOP_LEFT \<Rightarrow> fst suggestion
         | TOP_RIGHT \<Rightarrow> (fst (fst suggestion) - fst ss, snd (fst suggestion))
         | BOTTOM_LEFT \<Rightarrow> (fst (fst suggestion), snd (fst suggestion) - snd ss)
         | BOTTOM_RIGHT \<Rightarrow> (fst (fst suggestion) - fst ss, snd (fst suggestion) - snd ss))"

text \<open>\<^verbatim>\<open>UvBox.apply_suggestion\<close> on a plain UvBox: the setter stores the position.\<close>

definition UvBox_apply_suggestion :: "UvBox \<Rightarrow> suggestion \<Rightarrow> UvBox" where
  "UvBox_apply_suggestion self suggestion = self\<lparr>uv := suggestion_uv self suggestion\<rparr>"

subsection \<open>UvMcCube\<close>

text \<open>
  The overridden \<^verbatim>\<open>uv\<close> setter of UvMcCube: it stores the position and moves the six
  faces to their offsets from it.
\<close>

definition UvMcCube_set_uv :: "UvMcCube \<Rightarrow> int \<times> int \<Rightarrow> UvMcCube" where
  "UvMcCube_set_uv self p =
     self\<lparr>uv := p,
          right := (right self)\<lparr>uv := (fst p, snd p + depth self)\<rparr>,
          front := (front self)\<lparr>uv := (fst p + depth self, snd p + depth self)\<rparr>,
          left := (left self)\<lparr>uv := (fst p + depth self + width self, snd p + depth self)\<rparr>,
          back_box := (back_box self)\<lparr>uv := (fst p + 2 * depth self + width self, snd p + depth self)\<rparr>,
          top_box := (top_box self)\<lparr>uv := (fst p + depth self, snd p)\<rparr>,
          bottom := (bottom self)\<lparr>uv := (fst p + depth self + width self, snd p)\<rparr>\<rparr>"

text \<open>
  \<^verbatim>\<open>UvMcCube.__init__(width, depth, height, uv=None)\<close>: the six faces are built at
  their offsets from the origin, then \<^verbatim>\<open>UvBox.__init__\<close> sets \<^verbatim>\<open>is_mapped\<close>,
  \<^verbatim>\<open>size\<close> and, through the overridden setter, the position. No argument is checked.
\<close>

definition UvMcCube_init :: "int \<Rightarrow> int \<Rightarrow> int \<Rightarrow> (int \<times> int) option \<Rightarrow> UvMcCube" where
  "UvMcCube_init w d h uvo =
     (let sz = (2 * d + 2 * w, h + d);
          self = \<lparr>size_box = sz, uv = (0, 0), is_mapped = (uvo \<noteq> None),
                  depth = d, height = h, width = w,
                  right = UvBox_init (d, h) (Some (0, d)),
                  front = UvBox_init (w, h) (Some (d, d)),
                  left = UvBox_init (d, h) (Some (d + w, d)),
                  back_box = UvBox_init (w, h) (Some (2 * d + w, d)),
                  top_box = UvBox_init (w, d) (Some (d, 0)),
                  bottom = UvBox_init (w, d) (Some (d + w, 0))\<rparr>
      in UvMcCube_set_uv self (case uvo of None \<Rightarrow> (0, 0) | Some p \<Rightarrow> p))"

text \<open>
  \<^verbatim>\<open>UvMcCube.collides(self, other)\<close>: the first of the six faces of \<open>self\<close> that
  collides with \<open>other\<close> decides; \<open>other\<close> is read through \<^verbatim>\<open>uv\<close> and
  \<^verbatim>\<open>size\<close> only, which for a cube are its bounding rectangle.
\<close>

definition UvMcCube_collides :: "UvMcCube \<Rightarrow> 'b UvBox_scheme \<Rightarrow> bool" where
  "UvMcCube_collides self other =
     list_ex (\<lambda>i. UvBox_collides i other)
       [right self, front self, left self, back_box self, top_box self, bottom self]"

text \<open>
  \<^verbatim>\<open>[s for i, s in enumerate(xs) if i in idx]\<close>: the elements of \<open>xs\<close> at the
  positions listed in \<open>idx\<close>, in the order of \<open>xs\<close>.
\<close>

definition pick :: "nat list \<Rightarrow> 'a list \<Rightarrow> 'a list" where
  "pick idx xs = map snd (filter (\<lambda>(i, s). i \<in> set idx) (enumerate 0 xs))"

text \<open>\<^verbatim>\<open>UvMcCube.suggest_positions(self)\<close>: twelve of the faces' suggestions.\<close>

definition UvMcCube_suggest_positions :: "UvMcCube \<Rightarrow> suggestion list" where
  "UvMcCube_suggest_positions self =
     pick [0, 5, 6] (UvBox_suggest_positions (right self)) @
     pick [0, 6, 7] (UvBox_suggest_positions (top_box self)) @
     pick [1, 2, 3] (UvBox_suggest_positions (bottom self)) @
     pick [1, 3, 4] (UvBox_suggest_positions (back_box self))"

text \<open>
  \<^verbatim>\<open>apply_suggestion\<close> is inherited: on a cube it reads the bounding \<^verbatim>\<open>size\<close> and
  assigns through the cube's setter.
\<close>

definition UvMcCube_apply_suggestion :: "UvMcCube \<Rightarrow> suggestion \<Rightarrow> UvMcCube" where
  "UvMcCube_apply_suggestion self suggestion =
     UvMcCube_set_uv self (suggestion_uv self suggestion)"

subsection \<open>The heap\<close>

text \<open>
  \<^verbatim>\<open>plan_uv\<close> moves the boxes it is given in place, and its caller reads the result
  from the same objects. Objects are therefore kept in a store, addressed by a
  reference that stands for the object's identity. A Python reference always denotes an
  object, so the store is total.
\<close>

type_synonym ref = nat

type_synonym store = "ref \<Rightarrow> UvMcCube"

subsection \<open>plan\_uv\<close>

text \<open>
  The local function \<^verbatim>\<open>_is_out_of_bounds(uv, size=(0, 0))\<close> of \<^verbatim>\<open>plan_uv\<close>; it
  closes over \<^verbatim>\<open>width\<close> and \<^verbatim>\<open>height\<close> of \<^verbatim>\<open>plan_uv\<close>, which are the
  parameters \<open>max_width\<close> and \<open>max_height\<close> here (\<open>width\<close> and \<open>height\<close> are fields of
  the cube); \<^verbatim>\<open>height=None\<close> is \<open>None\<close>.
\<close>

definition is_out_of_bounds :: "int \<Rightarrow> int option \<Rightarrow> int \<times> int \<Rightarrow> int \<times> int \<Rightarrow> bool" where
  "is_out_of_bounds max_width max_height p sz =
     (fst p < 0 \<or> snd p < 0 \<or> fst p + fst sz > max_width \<or>
      (case max_height of None \<Rightarrow> False | Some h \<Rightarrow> snd p + snd sz > h))"

text \<open>\<^verbatim>\<open>del xs[i]\<close> for an index in range (the only use the source makes of it).\<close>

definition delete_at :: "nat \<Rightarrow> 'a list \<Rightarrow> 'a list" where
  "delete_at i xs = take i xs @ drop (Suc i) xs"

text \<open>The local variables of \<^verbatim>\<open>plan_uv\<close> that its loops update, and the store.\<close>

record plan_state =
  suggestions :: "suggestion list"
  authors :: "ref list"
  mapped_boxes :: "ref list"
  heap :: store

text \<open>
  The \<^verbatim>\<open>while len(suggestions) > suggestion_i + 1\<close> loop for one box. The argument
  \<open>n\<close> is \<^verbatim>\<open>suggestion_i + 1\<close> at the loop test, that is the index the body reads
  after its increment; it starts at 0 for \<^verbatim>\<open>suggestion_i = -1\<close>. The result is
  \<open>True\<close> when the loop left through the \<^verbatim>\<open>break\<close> of an accepted suggestion and
  \<open>False\<close> when the loop test failed (the \<^verbatim>\<open>else\<close> branch of the \<^verbatim>\<open>while\<close>).
  The inner \<^verbatim>\<open>for other_box in mapped_boxes\<close> stops at the first box that collides,
  which is \<open>find\<close>; \<^verbatim>\<open>other_box not in authors\<close> compares by identity.
\<close>

function scan :: "int \<Rightarrow> int option \<Rightarrow> ref \<Rightarrow> nat \<Rightarrow> plan_state \<Rightarrow> bool \<times> plan_state" where
  "scan max_width max_height box n st =
     (if length (suggestions st) > n then
        (let s = suggestions st ! n;
             st1 = st\<lparr>heap := (heap st)(box := UvMcCube_apply_suggestion (heap st box) s)\<rparr>
         in if is_out_of_bounds max_width max_height (fst s) (0, 0) then
              scan max_width max_height box n (st1\<lparr>suggestions := delete_at n (suggestions st1)\<rparr>)
            else if \<not> is_out_of_bounds max_width max_height (uv (heap st1 box)) (size_box (heap st1 box)) then
              (case find (\<lambda>other_box. UvMcCube_collides (heap st1 box) (heap st1 other_box))
                      (mapped_boxes st1) of
                 Some other_box \<Rightarrow>
                   if other_box \<notin> set (authors st1) then
                     scan max_width max_height box (Suc n)
                       (st1\<lparr>authors := authors st1 @ [other_box],
                            suggestions := suggestions st1 @
                              UvMcCube_suggest_positions (heap st1 other_box)\<rparr>)
                   else scan max_width max_height box (Suc n) st1
               | None \<Rightarrow>
                   (True,
                    st1\<lparr>heap := (heap st1)(box := (heap st1 box)\<lparr>is_mapped := True\<rparr>),
                        mapped_boxes := mapped_boxes st1 @ [box],
                        suggestions := delete_at n
                          (suggestions st1 @ UvMcCube_suggest_positions (heap st1 box))\<rparr>))
            else scan max_width max_height box (Suc n) st1)
      else (False, st))"
  by pat_completeness auto
termination
proof (relation "inv_image (less_than <*lex*> less_than)
    (\<lambda>(max_width, max_height, box, n, st).
       (card (set (mapped_boxes st) - set (authors st)), length (suggestions st) - n))",
    goal_cases)
  case 1
  show ?case by auto
next
  case (2 max_width max_height box n st s st1)
  then show ?case by (simp add: delete_at_def)
next
  case (3 max_width max_height box n st s st1 other_box)
  then have "other_box \<in> set (mapped_boxes st)"
    by (auto simp: find_Some_iff)
  with 3 have "set (mapped_boxes st) - set (authors st @ [other_box])
      \<subset> set (mapped_boxes st) - set (authors st)"
    by auto
  then have "card (set (mapped_boxes st) - set (authors st @ [other_box]))
      < card (set (mapped_boxes st) - set (authors st))"
    by (intro psubset_card_mono) simp_all
  with 3 show ?case by simp
next
  case (4 max_width max_height box n st s st1 other_box)
  then show ?case by simp
next
  case (5 max_width max_height box n st s st1)
  then show ?case by simp
qed

text \<open>
  The \<^verbatim>\<open>for box in unmapped_boxes\<close> loop: a box that no suggestion fits is put back
  at (0, 0), through the cube's setter, and the function returns \<^verbatim>\<open>False\<close> at once.
\<close>

fun plan_loop :: "int \<Rightarrow> int option \<Rightarrow> ref list \<Rightarrow> plan_state \<Rightarrow> bool \<times> plan_state" where
  "plan_loop max_width max_height [] st = (True, st)"
| "plan_loop max_width max_height (box # rest) st =
     (case scan max_width max_height box 0 st of
        (True, st') \<Rightarrow> plan_loop max_width max_height rest st'
      | (False, st') \<Rightarrow>
          (False, st'\<lparr>heap := (heap st')(box := UvMcCube_set_uv (heap st' box) (0, 0))\<rparr>))"

text \<open>
  \<^verbatim>\<open>boxes = list(set(boxes))\<close>. The set holds every object once, by identity. A
  Python set iterates in the order of its hash table. An object without
  \<^verbatim>\<open>__hash__\<close> hashes by its address, and where two hashes meet in the table the
  object inserted first keeps the place: the order of the list is fixed by where the
  interpreter allocated the boxes and by the argument the set is built from, and it is
  not the order of the argument. The parameter \<open>slot\<close> gives, for the argument of the
  call, each object's place in that iteration; it is arbitrary, so that every order of
  the distinct boxes is the order of some \<open>slot\<close>.
\<close>

definition list_of_set :: "(ref list \<Rightarrow> ref \<Rightarrow> nat) \<Rightarrow> ref list \<Rightarrow> ref list" where
  "list_of_set slot boxes = sort_key (slot boxes) (remdups boxes)"

text \<open>
  \<^verbatim>\<open>boxes.sort(key=lambda box: box.size[0], reverse=True)\<close>: Python's sort is stable
  also with \<^verbatim>\<open>reverse=True\<close>, so boxes of equal max_width keep their order.
\<close>

definition sorted_boxes :: "(ref list \<Rightarrow> ref \<Rightarrow> nat) \<Rightarrow> ref list \<Rightarrow> store \<Rightarrow> ref list" where
  "sorted_boxes slot boxes h =
     sort_key (\<lambda>box. - fst (size_box (h box))) (list_of_set slot boxes)"

text \<open>The two lists that the first loop of \<^verbatim>\<open>plan_uv\<close> fills.\<close>

definition mapped_boxes_init :: "(ref list \<Rightarrow> ref \<Rightarrow> nat) \<Rightarrow> ref list \<Rightarrow> store \<Rightarrow> ref list" where
  "mapped_boxes_init slot boxes h = filter (\<lambda>box. is_mapped (h box)) (sorted_boxes slot boxes h)"

definition unmapped_boxes :: "(ref list \<Rightarrow> ref \<Rightarrow> nat) \<Rightarrow> ref list \<Rightarrow> store \<Rightarrow> ref list" where
  "unmapped_boxes slot boxes h =
     filter (\<lambda>box. \<not> is_mapped (h box)) (sorted_boxes slot boxes h)"

definition plan_init :: "(ref list \<Rightarrow> ref \<Rightarrow> nat) \<Rightarrow> ref list \<Rightarrow> store \<Rightarrow> plan_state" where
  "plan_init slot boxes h =
     \<lparr>suggestions = [((0, 0), TOP_LEFT)], authors = [],
      mapped_boxes = mapped_boxes_init slot boxes h, heap = h\<rparr>"

text \<open>
  \<^verbatim>\<open>plan_uv(boxes, width, height=None)\<close>: the returned flag, and the store as the
  call leaves it.
\<close>

definition plan_uv ::
  "(ref list \<Rightarrow> ref \<Rightarrow> nat) \<Rightarrow> ref list \<Rightarrow> int \<Rightarrow> int option \<Rightarrow> store \<Rightarrow> bool \<times> store" where
  "plan_uv slot boxes max_width max_height h =
     (case plan_loop max_width max_height (unmapped_boxes slot boxes h) (plan_init slot boxes h) of
        (ok, st) \<Rightarrow> (ok, heap st))"

subsection \<open>get\_uv\_mc\_cubes\<close>

text \<open>
  What \<^verbatim>\<open>get_uv_mc_cubes\<close> reads of one scene object: its \<^verbatim>\<open>name\<close>, the triple
  \<^verbatim>\<open>w, h, d\<close> that the source obtains by rounding the scaled size (the floating-point
  computation before the rounding belongs to the host application and is not modelled),
  and the custom properties \<^verbatim>\<open>mc_uv\<close> and \<^verbatim>\<open>mc_uv_group\<close>, \<open>None\<close> when the
  property is not \<^verbatim>\<open>in obj\<close>.
\<close>

record mc_object =
  name :: string
  whd :: "int \<times> int \<times> int"
  mc_uv :: "(int \<times> int) option"
  mc_uv_group :: "string option"

text \<open>
  The local variables of \<^verbatim>\<open>get_uv_mc_cubes\<close>. \<^verbatim>\<open>uv_groups\<close> is a
  \<^verbatim>\<open>defaultdict\<close> of \<^verbatim>\<open>_UvGroup\<close>, whose only field is the dictionary
  \<^verbatim>\<open>items\<close>: a total function from the group name to that dictionary, empty by
  default. \<^verbatim>\<open>result\<close> maps a name to the cube, that is to its reference. Every
  \<^verbatim>\<open>UvMcCube(...)\<close> call makes a new object, at \<open>next_ref\<close>.
\<close>

record cubes_state =
  uv_groups :: "string \<Rightarrow> (int \<times> int \<times> int \<rightharpoonup> ref)"
  result :: "string \<rightharpoonup> ref"
  objs :: store
  next_ref :: ref

text \<open>The object that a \<^verbatim>\<open>UvMcCube(...)\<close> call returns is new: it takes the next reference.\<close>

definition alloc :: "UvMcCube \<Rightarrow> cubes_state \<Rightarrow> ref \<times> cubes_state" where
  "alloc cube st =
     (next_ref st, st\<lparr>objs := (objs st)(next_ref st := cube), next_ref := Suc (next_ref st)\<rparr>)"

text \<open>The body of the \<^verbatim>\<open>for obj in objects\<close> loop, from the rounding on.\<close>

definition get_uv_mc_cubes_step :: "bool \<Rightarrow> mc_object \<Rightarrow> cubes_state \<Rightarrow> cubes_state" where
  "get_uv_mc_cubes_step read_existing_uvs obj st =
     (case whd obj of (w, h, d) \<Rightarrow>
        if read_existing_uvs \<and> mc_uv obj \<noteq> None then
          (case alloc (UvMcCube_init w d h (mc_uv obj)) st of
             (r, st1) \<Rightarrow> st1\<lparr>result := (result st1)(name obj \<mapsto> r)\<rparr>)
        else
          (case (case mc_uv_group obj of
                   None \<Rightarrow> None
                 | Some g \<Rightarrow> uv_groups st g (w, d, h)) of
             Some r \<Rightarrow> st\<lparr>result := (result st)(name obj \<mapsto> r)\<rparr>
           | None \<Rightarrow>
               (case alloc (UvMcCube_init w d h None) st of
                  (r, st1) \<Rightarrow>
                    (let st2 = st1\<lparr>result := (result st1)(name obj \<mapsto> r)\<rparr>
                     in case mc_uv_group obj of
                          None \<Rightarrow> st2
                        | Some g \<Rightarrow>
                            st2\<lparr>uv_groups :=
                              (uv_groups st2)(g := (uv_groups st2 g)((w, d, h) \<mapsto> r))\<rparr>))))"

text \<open>
  \<^verbatim>\<open>get_uv_mc_cubes(objects, read_existing_uvs)\<close>, from the store \<open>h\<close> whose
  references below \<open>n\<close> are in use: the dictionary it returns, the store and the next
  free reference.
\<close>

definition get_uv_mc_cubes ::
  "mc_object list \<Rightarrow> bool \<Rightarrow> store \<Rightarrow> ref \<Rightarrow> (string \<rightharpoonup> ref) \<times> store \<times> ref" where
  "get_uv_mc_cubes objects read_existing_uvs h n =
     (let st = fold (get_uv_mc_cubes_step read_existing_uvs) objects
                 \<lparr>uv_groups = (\<lambda>g. Map.empty), result = Map.empty, objs = h, next_ref = n\<rparr>
      in (result st, objs st, next_ref st))"

subsection \<open>Notions of the specification\<close>

text \<open>
  The cell of a box's corner, as the specification reads it back after
  \<^verbatim>\<open>apply_suggestion\<close>: a box at \<open>(u, v)\<close> of size \<open>(w, h)\<close> covers the cells
  \<open>u .. u + w - 1\<close> by \<open>v .. v + h - 1\<close>. The source has no such function; this one
  follows the specification's words.
\<close>

definition spec_corner_cell :: "'a UvBox_scheme \<Rightarrow> UvCorner \<Rightarrow> int \<times> int" where
  "spec_corner_cell b c =
     (case c of
        TOP_LEFT \<Rightarrow> (fst (uv b), snd (uv b))
      | TOP_RIGHT \<Rightarrow> (fst (uv b) + fst (size_box b) - 1, snd (uv b))
      | BOTTOM_LEFT \<Rightarrow> (fst (uv b), snd (uv b) + snd (size_box b) - 1)
      | BOTTOM_RIGHT \<Rightarrow> (fst (uv b) + fst (size_box b) - 1, snd (uv b) + snd (size_box b) - 1))"

text \<open>
  The outcome of a constructor call as its caller sees it: an exception or the new
  object. \<open>InvalidShape\<close> is the specification's name for the exception of a
  non-positive dimension. Neither \<^verbatim>\<open>__init__\<close> has a \<^verbatim>\<open>raise\<close> or an
  \<^verbatim>\<open>assert\<close>, and integer arithmetic does not raise, so in the source the outcome is
  always the object.
\<close>

datatype error = InvalidShape

definition UvBox_new :: "int \<times> int \<Rightarrow> (int \<times> int) option \<Rightarrow> error + UvBox" where
  "UvBox_new sz uvo = Inr (UvBox_init sz uvo)"

definition UvMcCube_new :: "int \<Rightarrow> int \<Rightarrow> int \<Rightarrow> (int \<times> int) option \<Rightarrow> error + UvMcCube" where
  "UvMcCube_new w d h uvo = Inr (UvMcCube_init w d h uvo)"

subsection \<open>Notions used to state the properties\<close>

text \<open>
  The key under which \<^verbatim>\<open>get_uv_mc_cubes\<close> files a cube in its group: the tuple
  \<^verbatim>\<open>(w, d, h)\<close> of the rounded \<^verbatim>\<open>w, h, d\<close>.
\<close>

definition group_key :: "mc_object \<Rightarrow> int \<times> int \<times> int" where
  "group_key obj = (case whd obj of (w, h, d) \<Rightarrow> (w, d, h))"

text \<open>
  The invariant of the loop of \<^verbatim>\<open>get_uv_mc_cubes\<close>: every object seen so far that
  has a group, and whose \<^verbatim>\<open>mc_uv\<close> was not read, is mapped by \<^verbatim>\<open>result\<close> to the
  cube that its group holds for its size.
\<close>

definition shared_inv :: "bool \<Rightarrow> cubes_state \<Rightarrow> mc_object set \<Rightarrow> bool" where
  "shared_inv read st seen \<longleftrightarrow>
     (\<forall>obj\<in>seen. \<forall>g. \<not> (read \<and> mc_uv obj \<noteq> None) \<longrightarrow> mc_uv_group obj = Some g \<longrightarrow>
        (\<exists>r. uv_groups st g (group_key obj) = Some r \<and> result st (name obj) = Some r))"

subsection \<open>Example inputs\<close>

text \<open>
  A store whose first objects are the listed cubes, at the references 0, 1, ...; every
  other reference holds a cube that the examples do not use.
\<close>

definition store_of :: "UvMcCube list \<Rightarrow> store" where
  "store_of cubes r =
     (if r < length cubes then cubes ! r else UvMcCube_init 1 1 1 (Some (0, 0)))"

text \<open>Sets that iterate in the order of the references, whatever the argument.\<close>

definition by_ref :: "ref list \<Rightarrow> ref \<Rightarrow> nat" where
  "by_ref boxes r = r"

text \<open>Sets that iterate the references 0 and 1 in the order 1, 0.\<close>

definition rev_slot :: "ref list \<Rightarrow> ref \<Rightarrow> nat" where
  "rev_slot boxes r = 1 - r"

text \<open>\<^verbatim>\<open>[UvMcCube(3, 1, 1), UvMcCube(1, 2, 1)]\<close>: bounding sizes 8 x 2 and 6 x 3.\<close>

definition nested_cubes :: store where
  "nested_cubes = store_of [UvMcCube_init 3 1 1 None, UvMcCube_init 1 2 1 None]"

text \<open>\<^verbatim>\<open>[UvMcCube(1, 1, 1), UvMcCube(1, 1, 3)]\<close>: the same width, two heights.\<close>

definition two_heights :: store where
  "two_heights = store_of [UvMcCube_init 1 1 1 None, UvMcCube_init 1 1 3 None]"

text \<open>\<^verbatim>\<open>[UvMcCube(1, 1, 1), UvMcCube(1, 1, 1)]\<close>: two cubes of bounding size 4 x 2.\<close>

definition narrow_pair :: store where
  "narrow_pair = store_of [UvMcCube_init 1 1 1 None, UvMcCube_init 1 1 1 None]"

text \<open>\<^verbatim>\<open>[UvMcCube(3, 2, 1)]\<close>: one cube of bounding width 10.\<close>

definition wide_cube :: store where
  "wide_cube = store_of [UvMcCube_init 3 2 1 None]"

text \<open>\<^verbatim>\<open>[UvMcCube(1, 1, 1, (5, 5)), UvMcCube(1, 1, 1)]\<close>: the first cube is mapped.\<close>

definition preplaced :: store where
  "preplaced = store_of [UvMcCube_init 1 1 1 (Some (5, 5)), UvMcCube_init 1 1 1 None]"

text \<open>
  Two objects of the group \<open>A\<close> and of the same size, the first with the property
  \<^verbatim>\<open>mc_uv\<close>.
\<close>

definition grouped_pair :: "mc_object list" where
  "grouped_pair =
     [\<lparr>name = ''a'', whd = (1, 1, 1), mc_uv = Some (5, 5), mc_uv_group = Some ''A''\<rparr>,
      \<lparr>name = ''b'', whd = (1, 1, 1), mc_uv = None, mc_uv_group = Some ''A''\<rparr>]"

text \<open>
  The specification's scenario: two objects of the group \<open>A\<close> and one without a group,
  all of size (3, 3, 3) and none with the property \<^verbatim>\<open>mc_uv\<close>.
\<close>

definition grouped_trio :: "mc_object list" where
  "grouped_trio =
     [\<lparr>name = ''a'', whd = (3, 3, 3), mc_uv = None, mc_uv_group = Some ''A''\<rparr>,
      \<lparr>name = ''b'', whd = (3, 3, 3), mc_uv = None, mc_uv_group = Some ''A''\<rparr>,
      \<lparr>name = ''c'', whd = (3, 3, 3), mc_uv = None, mc_uv_group = None\<rparr>]"

section \<open>Properties\<close>

subsection \<open>Records\<close>

text \<open>
  What the cube's setter and the \<^verbatim>\<open>is_mapped\<close> flag leave alone. These are stated
  once, by cases on the record, since a face has the type of the parent record.
\<close>

lemma set_uv_sel [simp]:
  "uv (UvMcCube_set_uv c p) = p"
  "size_box (UvMcCube_set_uv c p) = size_box c"
  "is_mapped (UvMcCube_set_uv c p) = is_mapped c"
  "depth (UvMcCube_set_uv c p) = depth c"
  "height (UvMcCube_set_uv c p) = height c"
  "width (UvMcCube_set_uv c p) = width c"
  by (cases c; simp add: UvMcCube_set_uv_def)+

lemma is_mapped_upd_sel [simp]:
  "right ((c::UvMcCube)\<lparr>is_mapped := x\<rparr>) = right c"
  "front (c\<lparr>is_mapped := x\<rparr>) = front c"
  "left (c\<lparr>is_mapped := x\<rparr>) = left c"
  "back_box (c\<lparr>is_mapped := x\<rparr>) = back_box c"
  "top_box (c\<lparr>is_mapped := x\<rparr>) = top_box c"
  "bottom (c\<lparr>is_mapped := x\<rparr>) = bottom c"
  by (cases c; simp)+

subsection \<open>Boxes and cubes\<close>

text \<open>
  C8. After \<^verbatim>\<open>apply_suggestion\<close> with a suggestion \<open>(p, c)\<close>, the cell of the box's
  corner \<open>c\<close> is \<open>p\<close>; for \<open>BOTTOM_RIGHT\<close> that is the cell
  \<open>(u + width - 1, v + height - 1)\<close>. This holds for a plain UvBox and for a UvMcCube,
  which applies the suggestion to its bounding rectangle.
\<close>

theorem apply_suggestion_corner:
  "spec_corner_cell (UvBox_apply_suggestion b (p, c)) c = p \<and>
   spec_corner_cell (UvMcCube_apply_suggestion cube (p, c)) c = p"
  by (cases c)
     (simp_all add: spec_corner_cell_def UvBox_apply_suggestion_def
        UvMcCube_apply_suggestion_def suggestion_uv_def)

text \<open>
  C9, as the specification states it, fails: a UvBox of width 0 and a UvMcCube of width 0
  and depth -1 are constructed without an exception.
\<close>

theorem constructors_fail_fast_counterexample:
  "fst (0::int, 1::int) \<le> 0 \<and> \<not> isl (UvBox_new (0, 1) None) \<and>
   (0::int) \<le> 0 \<and> \<not> isl (UvMcCube_new 0 (- 1) 2 None)"
  by (simp add: UvBox_new_def UvMcCube_new_def)

text \<open>
  C9, amended. Constructing a UvBox or a UvMcCube never fails, whatever the sign of the
  dimensions: the constructors check nothing and return an object that holds the
  dimensions as given, the cube with the bounding size
  \<open>(2 * depth + 2 * width, height + depth)\<close>.
\<close>

theorem constructors_never_fail:
  "UvBox_new sz uvo = Inr (UvBox_init sz uvo) \<and>
   size_box (UvBox_init sz uvo) = sz \<and>
   UvMcCube_new w d h uvo = Inr (UvMcCube_init w d h uvo) \<and>
   (width (UvMcCube_init w d h uvo), depth (UvMcCube_init w d h uvo),
    height (UvMcCube_init w d h uvo)) = (w, d, h) \<and>
   size_box (UvMcCube_init w d h uvo) = (2 * d + 2 * w, h + d)"
  by (simp add: UvBox_new_def UvMcCube_new_def UvBox_init_def UvMcCube_init_def
      Let_def split: option.split)

text \<open>
  C10. The collision test of cubes is not symmetric: there are two cubes of positive
  dimensions, at fixed positions, for which \<open>a.collides(b)\<close> and \<open>b.collides(a)\<close>
  differ. The cube 3 x 1 x 1 at (0, 0) has its back face in the empty top left corner of
  the bounding rectangle of the cube 1 x 2 x 1 at (7, 0), and no face of the second
  reaches the bounding rectangle of the first.
\<close>

theorem collides_not_symmetric:
  "\<exists>w1 d1 h1 p1 w2 d2 h2 p2.
     0 < w1 \<and> 0 < d1 \<and> 0 < h1 \<and> 0 < w2 \<and> 0 < d2 \<and> 0 < h2 \<and>
     UvMcCube_collides (UvMcCube_init w1 d1 h1 (Some p1)) (UvMcCube_init w2 d2 h2 (Some p2)) \<noteq>
     UvMcCube_collides (UvMcCube_init w2 d2 h2 (Some p2)) (UvMcCube_init w1 d1 h1 (Some p1))"
proof -
  have "UvMcCube_collides (UvMcCube_init 3 1 1 (Some (0, 0))) (UvMcCube_init 1 2 1 (Some (7, 0)))"
    by (simp add: UvMcCube_collides_def UvBox_collides_def UvMcCube_init_def
        UvMcCube_set_uv_def UvBox_init_def Let_def)
  moreover
  have "\<not> UvMcCube_collides (UvMcCube_init 1 2 1 (Some (7, 0))) (UvMcCube_init 3 1 1 (Some (0, 0)))"
    by (simp add: UvMcCube_collides_def UvBox_collides_def UvMcCube_init_def
        UvMcCube_set_uv_def UvBox_init_def Let_def)
  ultimately show ?thesis
    by (intro exI[of _ 3] exI[of _ 1] exI[of _ "(0, 0)"] exI[of _ 2] exI[of _ "(7, 0)"]) simp
qed

subsection \<open>One box against the queue\<close>

declare scan.simps [simp del]

lemma collides_is_mapped_upd [simp]:
  "UvMcCube_collides (a\<lparr>is_mapped := x\<rparr>) b = UvMcCube_collides a b"
  "UvMcCube_collides a (b\<lparr>is_mapped := x\<rparr>) = UvMcCube_collides a b"
  by (simp_all add: UvMcCube_collides_def UvBox_collides_def)

lemma apply_suggestion_sel [simp]:
  "size_box (UvMcCube_apply_suggestion c s) = size_box c"
  "is_mapped (UvMcCube_apply_suggestion c s) = is_mapped c"
  by (simp_all add: UvMcCube_apply_suggestion_def)

text \<open>
  What a run of the \<^verbatim>\<open>while\<close> loop for \<open>box\<close> does to the state: it moves no
  other object and keeps the size of \<open>box\<close>; \<^verbatim>\<open>mapped_boxes\<close> gains \<open>box\<close> exactly
  when a suggestion is accepted, and then \<open>box\<close> is mapped, inside the bounds, and
  collides with no box that was in \<^verbatim>\<open>mapped_boxes\<close>.
\<close>

lemma scan_result:
  "scan W H box n st = (ok, st') \<Longrightarrow>
     (\<forall>r. r \<noteq> box \<longrightarrow> heap st' r = heap st r) \<and>
     size_box (heap st' box) = size_box (heap st box) \<and>
     mapped_boxes st' = (if ok then mapped_boxes st @ [box] else mapped_boxes st) \<and>
     (ok \<longrightarrow> is_mapped (heap st' box) \<and>
        \<not> is_out_of_bounds W H (uv (heap st' box)) (size_box (heap st' box)) \<and>
        (\<forall>other\<in>set (mapped_boxes st). \<not> UvMcCube_collides (heap st' box) (heap st' other)))"
proof (induction W H box n st arbitrary: ok st' rule: scan.induct)
  case (1 W H box n st)
  define s where "s = suggestions st ! n"
  define st1 where "st1 = st\<lparr>heap := (heap st)(box := UvMcCube_apply_suggestion (heap st box) s)\<rparr>"
  note IH = "1.IH"[OF _ s_def st1_def]
  have hp: "\<forall>r. r \<noteq> box \<longrightarrow> heap st1 r = heap st r"
    and sz: "size_box (heap st1 box) = size_box (heap st box)"
    and mp: "mapped_boxes st1 = mapped_boxes st"
    by (simp_all add: st1_def)
  show ?case
  proof (cases "n < length (suggestions st)")
    case False
    with "1.prems" show ?thesis by (simp add: scan.simps)
  next
    case inrange: True
    show ?thesis
    proof (cases "is_out_of_bounds W H (fst s) (0, 0)")
      case True
      with inrange "1.prems"
      have "scan W H box n (st1\<lparr>suggestions := delete_at n (suggestions st1)\<rparr>) = (ok, st')"
        by (simp add: scan.simps[of W H box n st] Let_def s_def st1_def)
      from IH(1)[OF inrange True this] hp sz mp show ?thesis by auto
    next
      case inb: False
      show ?thesis
      proof (cases "is_out_of_bounds W H (uv (heap st1 box)) (size_box (heap st1 box))")
        case True
        with inrange inb "1.prems" have "scan W H box (Suc n) st1 = (ok, st')"
          by (simp add: scan.simps[of W H box n st] Let_def s_def st1_def)
        from IH(4)[OF inrange inb _ this] True hp sz mp show ?thesis by auto
      next
        case fits: False
        show ?thesis
        proof (cases "find (\<lambda>other_box. UvMcCube_collides (heap st1 box) (heap st1 other_box)) (mapped_boxes st1)")
          case None
          with inrange inb fits "1.prems"
          have ok: "ok" and st': "st' = st1\<lparr>heap := (heap st1)(box := (heap st1 box)\<lparr>is_mapped := True\<rparr>),
                        mapped_boxes := mapped_boxes st1 @ [box],
                        suggestions := delete_at n
                          (suggestions st1 @ UvMcCube_suggest_positions (heap st1 box))\<rparr>"
            by (simp_all add: scan.simps[of W H box n st] Let_def s_def st1_def)
          from None have "\<forall>other\<in>set (mapped_boxes st1). \<not> UvMcCube_collides (heap st1 box) (heap st1 other)"
            by (simp add: find_None_iff)
          with ok st' fits hp sz mp show ?thesis by auto
        next
          case (Some other_box)
          show ?thesis
          proof (cases "other_box \<in> set (authors st1)")
            case True
            with Some inrange inb fits "1.prems" have "scan W H box (Suc n) st1 = (ok, st')"
              by (simp add: scan.simps[of W H box n st] Let_def s_def st1_def)
            from IH(3)[OF inrange inb _ Some _ this] fits True hp sz mp show ?thesis by auto
          next
            case False
            with Some inrange inb fits "1.prems" have "scan W H box (Suc n)
                       (st1\<lparr>authors := authors st1 @ [other_box],
                            suggestions := suggestions st1 @
                              UvMcCube_suggest_positions (heap st1 other_box)\<rparr>) = (ok, st')"
              by (simp add: scan.simps[of W H box n st] Let_def s_def st1_def)
            from IH(2)[OF inrange inb _ Some _ this] fits False hp sz mp show ?thesis by auto
          qed
        qed
      qed
    qed
  qed
qed

subsection \<open>The loop over the unmapped boxes\<close>

lemma plan_loop_frame:
  "plan_loop W H bs st = (ok, st') \<Longrightarrow> r \<notin> set bs \<Longrightarrow> heap st' r = heap st r"
proof (induction bs arbitrary: st)
  case Nil
  then show ?case by simp
next
  case (Cons box rest)
  obtain ok1 st1 where sc: "scan W H box 0 st = (ok1, st1)" by force
  from scan_result[OF sc] Cons.prems(2) have h1: "heap st1 r = heap st r" by simp
  show ?case
  proof (cases ok1)
    case True
    with sc Cons.prems(1) have "plan_loop W H rest st1 = (ok, st')" by simp
    from Cons.IH[OF this] Cons.prems(2) h1 show ?thesis by simp
  next
    case False
    with sc Cons.prems h1 show ?thesis by auto
  qed
qed

lemma plan_loop_placed:
  "plan_loop W H bs st = (True, st') \<Longrightarrow> distinct bs \<Longrightarrow>
   set bs \<inter> set (mapped_boxes st) = {} \<Longrightarrow> bs = xs @ b # ys \<Longrightarrow>
     \<not> is_out_of_bounds W H (uv (heap st' b)) (size_box (heap st' b)) \<and>
     size_box (heap st' b) = size_box (heap st b) \<and>
     (\<forall>other\<in>set (mapped_boxes st) \<union> set xs.
        \<not> UvMcCube_collides (heap st' b) (heap st' other))"
proof (induction bs arbitrary: st xs)
  case Nil
  then show ?case by simp
next
  case (Cons box rest)
  obtain ok1 st1 where sc: "scan W H box 0 st = (ok1, st1)" by force
  with Cons.prems(1) have ok1: ok1 and rest: "plan_loop W H rest st1 = (True, st')"
    by (auto split: if_splits bool.splits)
  note sr = scan_result[OF sc]
  from sr ok1 have mp1: "mapped_boxes st1 = mapped_boxes st @ [box]" by simp
  show ?case
  proof (cases xs)
    case Nil
    with Cons.prems(4) have b: "b = box" and ys: "ys = rest" by simp_all
    from Cons.prems(2) have "box \<notin> set rest" by simp
    from plan_loop_frame[OF rest this] have hb: "heap st' box = heap st1 box" .
    have "\<not> UvMcCube_collides (heap st' b) (heap st' other)"
      if "other \<in> set (mapped_boxes st)" for other
    proof -
      from that Cons.prems(3) have "other \<notin> set rest" by auto
      from plan_loop_frame[OF rest this] have "heap st' other = heap st1 other" .
      with sr ok1 that hb b show ?thesis by simp
    qed
    with sr ok1 hb b Nil show ?thesis by auto
  next
    case (Cons x xs')
    with Cons.prems(4) have x: "x = box" and r: "rest = xs' @ b # ys" by simp_all
    from Cons.prems(2) have d: "distinct rest" and nb: "box \<notin> set rest" by simp_all
    from Cons.prems(3) nb mp1 have dj: "set rest \<inter> set (mapped_boxes st1) = {}" by auto
    from r nb have "b \<noteq> box" by auto
    with sr have "size_box (heap st1 b) = size_box (heap st b)" by simp
    with Cons.IH[OF rest d dj r] mp1 x Cons show ?thesis by auto
  qed
qed

lemma plan_loop_append_fail:
  "plan_loop W H pre st = (True, st1) \<Longrightarrow> scan W H b 0 st1 = (False, st2) \<Longrightarrow>
   plan_loop W H (pre @ b # rest) st =
     (False, st2\<lparr>heap := (heap st2)(b := UvMcCube_set_uv (heap st2 b) (0, 0))\<rparr>)"
proof (induction pre arbitrary: st)
  case Nil
  then show ?case by (simp add: fun_upd_def)
next
  case (Cons box pre)
  obtain ok1 sta where sc: "scan W H box 0 st = (ok1, sta)" by force
  with Cons.prems(1) have ok1 and "plan_loop W H pre sta = (True, st1)"
    by (auto split: if_splits bool.splits)
  with Cons.IH[OF this(2) Cons.prems(2)] sc show ?case by simp
qed

lemma set_sorted_boxes [simp]: "set (sorted_boxes slot boxes h) = set boxes"
  by (simp add: sorted_boxes_def list_of_set_def)

lemma distinct_sorted_boxes [simp]: "distinct (sorted_boxes slot boxes h)"
  by (simp add: sorted_boxes_def list_of_set_def)

lemma set_unmapped_boxes:
  "set (unmapped_boxes slot boxes h) = {b \<in> set boxes. \<not> is_mapped (h b)}"
  by (auto simp: unmapped_boxes_def)

lemma distinct_unmapped_boxes [simp]: "distinct (unmapped_boxes slot boxes h)"
  by (simp add: unmapped_boxes_def)

lemma unmapped_disjoint_mapped:
  "set (unmapped_boxes slot boxes h) \<inter> set (mapped_boxes (plan_init slot boxes h)) = {}"
  by (auto simp: unmapped_boxes_def plan_init_def mapped_boxes_init_def)

subsection \<open>plan\_uv\<close>

text \<open>
  C1, as the specification states it, fails. \<^verbatim>\<open>plan_uv\<close> with width 16 and height 3
  places \<^verbatim>\<open>UvMcCube(3, 1, 1)\<close> at (0, 0) and \<^verbatim>\<open>UvMcCube(1, 2, 1)\<close> at (7, 0), in
  the empty corner beside the first cube's bottom face, and returns \<^verbatim>\<open>True\<close>; the
  first cube then collides with the second.
\<close>

theorem placed_boxes_collide_counterexample:
  "fst (plan_uv by_ref [0, 1] 16 (Some 3) nested_cubes) \<and>
   \<not> is_mapped (nested_cubes 0) \<and> \<not> is_mapped (nested_cubes 1) \<and>
   UvMcCube_collides (snd (plan_uv by_ref [0, 1] 16 (Some 3) nested_cubes) 0)
     (snd (plan_uv by_ref [0, 1] 16 (Some 3) nested_cubes) 1)"
  by code_simp

text \<open>
  C1, amended. After a successful \<^verbatim>\<open>plan_uv\<close>, of two boxes that the call placed the
  one placed later does not collide with the one placed earlier:
  \<open>later.collides(earlier)\<close> is false. The boxes are placed in the order of
  \<^verbatim>\<open>unmapped_boxes\<close>, that is by decreasing bounding width.
\<close>

theorem later_box_avoids_earlier:
  assumes "plan_uv slot boxes W H h = (True, h')"
    and "i < j" and "j < length (unmapped_boxes slot boxes h)"
  shows "\<not> UvMcCube_collides (h' (unmapped_boxes slot boxes h ! j))
           (h' (unmapped_boxes slot boxes h ! i))"
proof -
  let ?U = "unmapped_boxes slot boxes h"
  obtain st' where pl: "plan_loop W H ?U (plan_init slot boxes h) = (True, st')"
    and h': "h' = heap st'"
    using assms(1) by (auto simp: plan_uv_def split: prod.splits)
  from assms(3) have dec: "?U = take j ?U @ ?U ! j # drop (Suc j) ?U"
    by (simp add: id_take_nth_drop)
  from assms(2,3) have "?U ! i \<in> set (take j ?U)"
    by (auto simp: in_set_conv_nth intro!: exI[of _ i])
  with plan_loop_placed[OF pl distinct_unmapped_boxes unmapped_disjoint_mapped dec] h'
  show ?thesis by simp
qed

theorem later_box_avoids_earlier_witness:
  "fst (plan_uv by_ref [0, 1] 16 (Some 3) nested_cubes) \<and> (0::nat) < 1 \<and>
   1 < length (unmapped_boxes by_ref [0, 1] nested_cubes) \<and>
   \<not> UvMcCube_collides
       (snd (plan_uv by_ref [0, 1] 16 (Some 3) nested_cubes)
          (unmapped_boxes by_ref [0, 1] nested_cubes ! 1))
       (snd (plan_uv by_ref [0, 1] 16 (Some 3) nested_cubes)
          (unmapped_boxes by_ref [0, 1] nested_cubes ! 0))"
proof -
  have ok: "fst (plan_uv by_ref [0, 1] 16 (Some 3) nested_cubes)"
    by code_simp
  then have run: "plan_uv by_ref [0, 1] 16 (Some 3) nested_cubes =
      (True, snd (plan_uv by_ref [0, 1] 16 (Some 3) nested_cubes))"
    by (simp add: prod_eq_iff)
  have len: "1 < length (unmapped_boxes by_ref [0, 1] nested_cubes)"
    by code_simp
  have lt: "(0::nat) < 1" by simp
  from later_box_avoids_earlier[OF run lt len] ok len lt show ?thesis
    by blast
qed

text \<open>
  C2. After a successful \<^verbatim>\<open>plan_uv\<close>, every box of the argument that was unmapped on
  entry lies inside the bounds: \<open>0 \<le> u\<close>, \<open>0 \<le> v\<close>, \<open>u + size[0] \<le> width\<close> and, when
  the height is given, \<open>v + size[1] \<le> height\<close>; its bounding size is the one it entered
  with.
\<close>

theorem placed_boxes_in_bounds:
  assumes "plan_uv slot boxes W H h = (True, h')"
    and "b \<in> set boxes" and "\<not> is_mapped (h b)"
  shows "0 \<le> fst (uv (h' b)) \<and> 0 \<le> snd (uv (h' b)) \<and>
         fst (uv (h' b)) + fst (size_box (h' b)) \<le> W \<and>
         (case H of None \<Rightarrow> True | Some Hmax \<Rightarrow> snd (uv (h' b)) + snd (size_box (h' b)) \<le> Hmax) \<and>
         size_box (h' b) = size_box (h b)"
proof -
  obtain st' where pl: "plan_loop W H (unmapped_boxes slot boxes h) (plan_init slot boxes h) = (True, st')"
    and h': "h' = heap st'"
    using assms(1) by (auto simp: plan_uv_def split: prod.splits)
  from assms(2,3) have "b \<in> set (unmapped_boxes slot boxes h)"
    by (simp add: set_unmapped_boxes)
  then obtain xs ys where "unmapped_boxes slot boxes h = xs @ b # ys"
    by (auto simp: in_set_conv_decomp)
  from plan_loop_placed[OF pl distinct_unmapped_boxes unmapped_disjoint_mapped this] h'
  show ?thesis
    by (auto simp: is_out_of_bounds_def plan_init_def split: option.splits)
qed

theorem placed_boxes_in_bounds_witness:
  "fst (plan_uv by_ref [0, 1] 16 (Some 3) nested_cubes) \<and> 1 \<in> set [0, 1 :: ref] \<and>
   \<not> is_mapped (nested_cubes 1) \<and>
   0 \<le> fst (uv (snd (plan_uv by_ref [0, 1] 16 (Some 3) nested_cubes) 1)) \<and>
   0 \<le> snd (uv (snd (plan_uv by_ref [0, 1] 16 (Some 3) nested_cubes) 1)) \<and>
   fst (uv (snd (plan_uv by_ref [0, 1] 16 (Some 3) nested_cubes) 1)) +
     fst (size_box (snd (plan_uv by_ref [0, 1] 16 (Some 3) nested_cubes) 1)) \<le> 16 \<and>
   snd (uv (snd (plan_uv by_ref [0, 1] 16 (Some 3) nested_cubes) 1)) +
     snd (size_box (snd (plan_uv by_ref [0, 1] 16 (Some 3) nested_cubes) 1)) \<le> 3"
proof -
  have ok: "fst (plan_uv by_ref [0, 1] 16 (Some 3) nested_cubes)"
    by code_simp
  then have run: "plan_uv by_ref [0, 1] 16 (Some 3) nested_cubes =
      (True, snd (plan_uv by_ref [0, 1] 16 (Some 3) nested_cubes))"
    by (simp add: prod_eq_iff)
  have mem: "1 \<in> set [0, 1 :: ref]" by simp
  have unm: "\<not> is_mapped (nested_cubes 1)" by code_simp
  from placed_boxes_in_bounds[OF run mem unm, unfolded option.case] ok mem unm
  show ?thesis by blast
qed

text \<open>
  C3 fails on the code at the width itself. With width 4 and height 2 the first cube of
  bounding size 4 x 2 fills the texture and suggests the point (4, 1); the point test
  \<^verbatim>\<open>_is_out_of_bounds(suggestion)\<close> is false for it, since it compares
  \<open>u + 0 > width\<close>. The second cube passes over the whole queue without finding a
  place, and the suggestion at \<open>u = width\<close> is still in the queue afterwards.
\<close>

theorem anchor_at_max_width_kept:
  "\<not> is_out_of_bounds 4 (Some 2) (4, 1) (0, 0) \<and>
   \<not> fst (plan_loop 4 (Some 2) (unmapped_boxes by_ref [0, 1] narrow_pair)
            (plan_init by_ref [0, 1] narrow_pair)) \<and>
   ((4, 1), BOTTOM_LEFT) \<in>
     set (suggestions (snd (plan_loop 4 (Some 2) (unmapped_boxes by_ref [0, 1] narrow_pair)
            (plan_init by_ref [0, 1] narrow_pair))))"
  by code_simp

text \<open>
  The sorted list of the boxes depends on the iteration of the set only through the order
  in which it yields boxes of equal bounding width, since the sort is stable.
\<close>

lemma sorted_boxes_ties:
  assumes "\<forall>k. filter (\<lambda>b. fst (size_box (h b)) = k) (list_of_set slot' boxes) =
               filter (\<lambda>b. fst (size_box (h b)) = k) (list_of_set slot boxes)"
  shows "sorted_boxes slot' boxes h = sorted_boxes slot boxes h"
proof -
  let ?f = "\<lambda>box. - fst (size_box (h box))"
  let ?L = "list_of_set slot boxes" and ?L' = "list_of_set slot' boxes"
  have "sort_key ?f ?L' = sort_key ?f ?L"
  proof (rule properties_for_sort_key)
    show "mset (sort_key ?f ?L) = mset ?L'"
      by (simp add: list_of_set_def)
    show "sorted (map ?f (sort_key ?f ?L))"
      by simp
    fix k
    have "filter (\<lambda>x. ?f k = ?f x) (sort_key ?f ?L) = filter (\<lambda>x. ?f x = ?f k) ?L"
      using sort_key_stable[of ?f "?f k" ?L] by (simp add: eq_commute)
    also have "\<dots> = filter (\<lambda>b. fst (size_box (h b)) = fst (size_box (h k))) ?L"
      by simp
    also have "\<dots> = filter (\<lambda>b. fst (size_box (h b)) = fst (size_box (h k))) ?L'"
      using assms by simp
    also have "\<dots> = filter (\<lambda>x. ?f k = ?f x) ?L'"
      by (simp add: eq_commute)
    finally show "filter (\<lambda>x. ?f k = ?f x) (sort_key ?f ?L) = filter (\<lambda>x. ?f k = ?f x) ?L'" .
  qed
  then show ?thesis by (simp add: sorted_boxes_def)
qed

lemma sorted_boxes_distinct_widths:
  assumes "inj_on (\<lambda>b. fst (size_box (h b))) (set boxes)"
  shows "sorted_boxes slot' boxes h = sorted_boxes slot boxes h"
proof -
  let ?f = "\<lambda>box. - fst (size_box (h box))"
  let ?L = "list_of_set slot boxes" and ?L' = "list_of_set slot' boxes"
  have "sort_key ?f ?L' = sort_key ?f ?L"
  proof (rule sort_key_inj_key_eq)
    show "mset ?L' = mset (sort_key ?f ?L)"
      by (simp add: list_of_set_def)
    show "inj_on ?f (set ?L')"
      using assms by (auto simp: list_of_set_def inj_on_def)
    show "sorted (map ?f (sort_key ?f ?L))"
      by simp
  qed
  then show ?thesis by (simp add: sorted_boxes_def)
qed

lemma plan_uv_sorted_boxes:
  assumes "sorted_boxes slot' boxes h = sorted_boxes slot boxes h"
  shows "plan_uv slot' boxes W H h = plan_uv slot boxes W H h"
  using assms
  by (simp add: plan_uv_def unmapped_boxes_def plan_init_def mapped_boxes_init_def)

text \<open>
  C4, as the specification states it, fails. The same two boxes, in the same argument
  order and with the same bounds, end at different positions when the set of the boxes
  iterates in the other order: the box 1 ends at (0, 2) in one run and at (0, 0) in the
  other.
\<close>

theorem plan_uv_deterministic_counterexample:
  "uv (snd (plan_uv by_ref [0, 1] 8 None two_heights) 1) = (0, 2) \<and>
   uv (snd (plan_uv rev_slot [0, 1] 8 None two_heights) 1) = (0, 0)"
  by code_simp

text \<open>
  C4, amended. For the same boxes in the same argument order and the same bounds, two
  runs of \<^verbatim>\<open>plan_uv\<close> return the same flag and leave the same store, so the same
  position of every box, whenever \<^verbatim>\<open>set(boxes)\<close> iterates the boxes of equal bounding
  width in the same order in both runs; in particular whenever no two of the boxes have
  the same bounding width, whatever the two iteration orders are.
\<close>

theorem plan_uv_deterministic_up_to_ties:
  "((\<forall>k. filter (\<lambda>b. fst (size_box (h b)) = k) (list_of_set slot' boxes) =
         filter (\<lambda>b. fst (size_box (h b)) = k) (list_of_set slot boxes)) \<longrightarrow>
      plan_uv slot' boxes W H h = plan_uv slot boxes W H h) \<and>
   (inj_on (\<lambda>b. fst (size_box (h b))) (set boxes) \<longrightarrow>
      plan_uv slot' boxes W H h = plan_uv slot boxes W H h)"
  using sorted_boxes_ties[of h slot' boxes slot] sorted_boxes_distinct_widths[of h boxes slot' slot]
    plan_uv_sorted_boxes[of slot' boxes h slot W H]
  by blast

theorem plan_uv_deterministic_up_to_ties_witness:
  "(\<forall>k. filter (\<lambda>b. fst (size_box (nested_cubes b)) = k) (list_of_set rev_slot [0, 1]) =
        filter (\<lambda>b. fst (size_box (nested_cubes b)) = k) (list_of_set by_ref [0, 1])) \<and>
   inj_on (\<lambda>b. fst (size_box (nested_cubes b))) (set [0, 1]) \<and>
   list_of_set rev_slot [0, 1] \<noteq> list_of_set by_ref [0, 1] \<and>
   plan_uv rev_slot [0, 1] 16 (Some 3) nested_cubes =
     plan_uv by_ref [0, 1] 16 (Some 3) nested_cubes"
proof -
  have l: "list_of_set by_ref [0, 1] = [0, 1]" "list_of_set rev_slot [0, 1] = [1, 0]"
    by (simp_all add: list_of_set_def by_ref_def rev_slot_def)
  have w: "fst (size_box (nested_cubes 0)) = 8" "fst (size_box (nested_cubes 1)) = 6"
    by code_simp+
  have ties: "\<forall>k. filter (\<lambda>b. fst (size_box (nested_cubes b)) = k) (list_of_set rev_slot [0, 1]) =
      filter (\<lambda>b. fst (size_box (nested_cubes b)) = k) (list_of_set by_ref [0, 1])"
    using l w by simp
  have inj: "inj_on (\<lambda>b. fst (size_box (nested_cubes b))) (set [0, 1])"
    using w by (simp add: inj_on_def)
  have diff: "list_of_set rev_slot [0, 1] \<noteq> list_of_set by_ref [0, 1]"
    using l by simp
  from plan_uv_deterministic_up_to_ties[of nested_cubes rev_slot "[0, 1]" by_ref 16 "Some 3"]
    ties inj diff
  show ?thesis by blast
qed

text \<open>
  C6. Whatever \<^verbatim>\<open>plan_uv\<close> returns, a box that was mapped on entry is the same object
  afterwards, with the position it had.
\<close>

theorem mapped_boxes_unchanged:
  assumes "is_mapped (h r)"
  shows "snd (plan_uv slot boxes W H h) r = h r \<and>
         uv (snd (plan_uv slot boxes W H h) r) = uv (h r)"
proof -
  obtain ok st' where pl: "plan_loop W H (unmapped_boxes slot boxes h) (plan_init slot boxes h) = (ok, st')"
    by force
  from assms have "r \<notin> set (unmapped_boxes slot boxes h)"
    by (simp add: set_unmapped_boxes)
  from plan_loop_frame[OF pl this] pl show ?thesis
    by (simp add: plan_uv_def plan_init_def)
qed

theorem mapped_boxes_unchanged_witness:
  "is_mapped (preplaced 0) \<and>
   snd (plan_uv by_ref [0, 1] 16 None preplaced) 0 = preplaced 0 \<and>
   uv (snd (plan_uv by_ref [0, 1] 16 None preplaced) 0) = uv (preplaced 0) \<and>
   uv (preplaced 0) = (5, 5)"
proof -
  have m: "is_mapped (preplaced 0)" by code_simp
  have p: "uv (preplaced 0) = (5, 5)" by code_simp
  from mapped_boxes_unchanged[where h = preplaced and r = 0 and slot = by_ref
      and boxes = "[0, 1]" and W = 16 and H = None, OF m] m p
  show ?thesis by blast
qed

text \<open>
  A box that no suggestion fits ends the call, and a single box wider than the texture
  is such a box.
\<close>

lemma plan_uv_fails_at:
  assumes "unmapped_boxes slot boxes h = pre @ b # rest"
    and "plan_loop W H pre (plan_init slot boxes h) = (True, st1)"
    and "scan W H b 0 st1 = (False, st2)"
  shows "plan_uv slot boxes W H h =
           (False, (heap st2)(b := UvMcCube_set_uv (heap st2 b) (0, 0))) \<and>
         uv (snd (plan_uv slot boxes W H h) b) = (0, 0) \<and>
         (\<forall>r\<in>set rest. snd (plan_uv slot boxes W H h) r = h r)"
proof -
  from plan_loop_append_fail[OF assms(2,3)] assms(1)
  have res: "plan_uv slot boxes W H h =
      (False, (heap st2)(b := UvMcCube_set_uv (heap st2 b) (0, 0)))"
    by (simp add: plan_uv_def)
  have "distinct (pre @ b # rest)"
    using distinct_unmapped_boxes[of slot boxes h] assms(1) by simp
  then have fresh: "r \<notin> set pre \<and> r \<noteq> b" if "r \<in> set rest" for r
    using that by auto
  have "heap st2 r = h r" if "r \<in> set rest" for r
  proof -
    from plan_loop_frame[OF assms(2)] fresh[OF that]
    have "heap st1 r = h r" by (simp add: plan_init_def)
    with scan_result[OF assms(3)] fresh[OF that] show ?thesis by simp
  qed
  with res fresh show ?thesis by auto
qed

lemma single_wide_box:
  assumes "\<not> is_mapped (h c)" and "W < fst (size_box (h c))"
  shows "\<not> fst (plan_uv slot [c] W H h) \<and> uv (snd (plan_uv slot [c] W H h) c) = (0, 0)"
proof -
  have u: "unmapped_boxes slot [c] h = [c]"
    using assms(1) by (simp add: unmapped_boxes_def sorted_boxes_def list_of_set_def)
  have "\<not> fst (scan W H c 0 (plan_init slot [c] h))"
    using assms(2)
    by (simp add: scan.simps[of _ _ _ 0] scan.simps[of _ _ _ "Suc 0"] plan_init_def Let_def
        delete_at_def is_out_of_bounds_def UvMcCube_apply_suggestion_def suggestion_uv_def)
  then obtain st2 where "scan W H c 0 (plan_init slot [c] h) = (False, st2)"
    by (cases "scan W H c 0 (plan_init slot [c] h)") auto
  then show ?thesis
    by (simp add: plan_uv_def u)
qed

text \<open>
  C7. When the boxes before \<open>b\<close> have been placed and \<open>b\<close> passes over the whole queue
  without being accepted, \<^verbatim>\<open>plan_uv\<close> returns \<^verbatim>\<open>False\<close> with the store as that scan
  left it, except that \<open>b\<close> is at (0, 0); the boxes after \<open>b\<close> are as they were on
  entry. In particular, for a single unmapped cube of bounding width 10 and the width 8,
  whatever the height, \<^verbatim>\<open>plan_uv\<close> returns \<^verbatim>\<open>False\<close> and the cube ends at (0, 0).
\<close>

theorem unplaced_box_fails_plan:
  "(unmapped_boxes slot boxes h = pre @ b # rest \<longrightarrow>
    plan_loop W H pre (plan_init slot boxes h) = (True, st1) \<longrightarrow>
    scan W H b 0 st1 = (False, st2) \<longrightarrow>
      plan_uv slot boxes W H h =
        (False, (heap st2)(b := UvMcCube_set_uv (heap st2 b) (0, 0))) \<and>
      uv (snd (plan_uv slot boxes W H h) b) = (0, 0) \<and>
      (\<forall>r\<in>set rest. snd (plan_uv slot boxes W H h) r = h r)) \<and>
   (\<not> is_mapped (h c) \<longrightarrow> fst (size_box (h c)) = 10 \<longrightarrow>
      \<not> fst (plan_uv slot [c] 8 H h) \<and> uv (snd (plan_uv slot [c] 8 H h) c) = (0, 0))"
proof (intro conjI impI)
  assume "\<not> is_mapped (h c)" and "fst (size_box (h c)) = 10"
  then have "\<not> fst (plan_uv slot [c] 8 H h) \<and> uv (snd (plan_uv slot [c] 8 H h) c) = (0, 0)"
    by (intro single_wide_box) simp_all
  then show "\<not> fst (plan_uv slot [c] 8 H h)"
    and "uv (snd (plan_uv slot [c] 8 H h) c) = (0, 0)"
    by simp_all
next
  assume "unmapped_boxes slot boxes h = pre @ b # rest"
    and "plan_loop W H pre (plan_init slot boxes h) = (True, st1)"
    and "scan W H b 0 st1 = (False, st2)"
  note r = plan_uv_fails_at[OF this]
  from r show "plan_uv slot boxes W H h =
      (False, (heap st2)(b := UvMcCube_set_uv (heap st2 b) (0, 0)))"
    by (rule conjunct1)
  from r show "uv (snd (plan_uv slot boxes W H h) b) = (0, 0)"
    by blast
  from r show "\<forall>r\<in>set rest. snd (plan_uv slot boxes W H h) r = h r"
    by blast
qed

theorem unplaced_box_fails_plan_witness:
  "unmapped_boxes by_ref [0] wide_cube = [] @ 0 # [] \<and>
   plan_loop 8 None [] (plan_init by_ref [0] wide_cube) = (True, plan_init by_ref [0] wide_cube) \<and>
   \<not> fst (scan 8 None 0 0 (plan_init by_ref [0] wide_cube)) \<and>
   \<not> is_mapped (wide_cube 0) \<and> fst (size_box (wide_cube 0)) = 10 \<and>
   \<not> fst (plan_uv by_ref [0] 8 None wide_cube) \<and>
   uv (snd (plan_uv by_ref [0] 8 None wide_cube) 0) = (0, 0)"
proof -
  have u: "unmapped_boxes by_ref [0] wide_cube = [] @ 0 # []" by code_simp
  have w: "fst (size_box (wide_cube 0)) = 10" by code_simp
  have m: "\<not> is_mapped (wide_cube 0)" by code_simp
  have pre: "plan_loop 8 None [] (plan_init by_ref [0] wide_cube) =
      (True, plan_init by_ref [0] wide_cube)"
    by simp
  have f: "\<not> fst (scan 8 None 0 0 (plan_init by_ref [0] wide_cube))" by code_simp
  then have sc: "scan 8 None 0 0 (plan_init by_ref [0] wide_cube) =
      (False, snd (scan 8 None 0 0 (plan_init by_ref [0] wide_cube)))"
    by (simp add: prod_eq_iff)
  from unplaced_box_fails_plan[of by_ref "[0]" wide_cube "[]" 0 "[]" 8 None
      "plan_init by_ref [0] wide_cube" "snd (scan 8 None 0 0 (plan_init by_ref [0] wide_cube))" 0]
    u w m pre f sc
  show ?thesis by blast
qed

subsection \<open>get\_uv\_mc\_cubes\<close>

lemma step_existing:
  assumes "read \<and> mc_uv obj \<noteq> None"
  shows "uv_groups (get_uv_mc_cubes_step read obj st) = uv_groups st"
    and "result (get_uv_mc_cubes_step read obj st) = (result st)(name obj \<mapsto> next_ref st)"
  using assms by (auto simp: get_uv_mc_cubes_step_def alloc_def split: prod.splits)

lemma step_reuse:
  assumes "\<not> (read \<and> mc_uv obj \<noteq> None)" and "mc_uv_group obj = Some g"
    and "uv_groups st g (group_key obj) = Some r"
  shows "uv_groups (get_uv_mc_cubes_step read obj st) = uv_groups st"
    and "result (get_uv_mc_cubes_step read obj st) = (result st)(name obj \<mapsto> r)"
  using assms
  by (auto simp: get_uv_mc_cubes_step_def group_key_def split: prod.splits)

lemma step_new_in_group:
  assumes "\<not> (read \<and> mc_uv obj \<noteq> None)" and "mc_uv_group obj = Some g"
    and "uv_groups st g (group_key obj) = None"
  shows "uv_groups (get_uv_mc_cubes_step read obj st) =
           (uv_groups st)(g := (uv_groups st g)(group_key obj \<mapsto> next_ref st))"
    and "result (get_uv_mc_cubes_step read obj st) = (result st)(name obj \<mapsto> next_ref st)"
  using assms
  by (auto simp: get_uv_mc_cubes_step_def alloc_def group_key_def Let_def split: prod.splits)

lemma step_new_ungrouped:
  assumes "\<not> (read \<and> mc_uv obj \<noteq> None)" and "mc_uv_group obj = None"
  shows "uv_groups (get_uv_mc_cubes_step read obj st) = uv_groups st"
    and "result (get_uv_mc_cubes_step read obj st) = (result st)(name obj \<mapsto> next_ref st)"
  using assms
  by (auto simp: get_uv_mc_cubes_step_def alloc_def Let_def split: prod.splits)

lemma step_shared_inv:
  assumes inv: "shared_inv read st seen" and fresh: "name obj \<notin> name ` seen"
  shows "shared_inv read (get_uv_mc_cubes_step read obj st) (insert obj seen)"
  unfolding shared_inv_def
proof (intro ballI allI impI)
  fix o' g'
  let ?st' = "get_uv_mc_cubes_step read obj st"
  assume o': "o' \<in> insert obj seen" and nouv: "\<not> (read \<and> mc_uv o' \<noteq> None)"
    and grp: "mc_uv_group o' = Some g'"
  show "\<exists>r. uv_groups ?st' g' (group_key o') = Some r \<and> result ?st' (name o') = Some r"
  proof (cases "o' = obj")
    case True
    show ?thesis
    proof (cases "uv_groups st g' (group_key obj)")
      case None
      from step_new_in_group[of read obj g' st] nouv grp None True show ?thesis by simp
    next
      case (Some r)
      from step_reuse[of read obj g' st r] nouv grp Some True show ?thesis by simp
    qed
  next
    case False
    with o' have seen: "o' \<in> seen" by simp
    with fresh have nm: "name o' \<noteq> name obj" by (auto simp: image_iff)
    from inv seen nouv grp obtain r where
      r: "uv_groups st g' (group_key o') = Some r" "result st (name o') = Some r"
      unfolding shared_inv_def by blast
    show ?thesis
    proof (cases "read \<and> mc_uv obj \<noteq> None")
      case True
      from step_existing[OF True, of st] r nm show ?thesis by simp
    next
      case noex: False
      show ?thesis
      proof (cases "mc_uv_group obj")
        case None
        from step_new_ungrouped[OF noex None, of st] r nm show ?thesis by simp
      next
        case (Some g)
        show ?thesis
        proof (cases "uv_groups st g (group_key obj)")
          case None
          with r(1) have "\<not> (g' = g \<and> group_key o' = group_key obj)" by auto
          with step_new_in_group[OF noex Some None] r nm show ?thesis by auto
        next
          case (Some r0)
          from step_reuse[OF noex \<open>mc_uv_group obj = Some g\<close> Some] r nm show ?thesis by simp
        qed
      qed
    qed
  qed
qed

lemma fold_shared_inv:
  assumes "shared_inv read st seen" and "distinct (map name objects)"
    and "name ` seen \<inter> name ` set objects = {}"
  shows "shared_inv read (fold (get_uv_mc_cubes_step read) objects st) (seen \<union> set objects)"
  using assms
proof (induction objects arbitrary: st seen)
  case Nil
  then show ?case by simp
next
  case (Cons obj objects)
  from Cons.prems(3) have "name obj \<notin> name ` seen" by auto
  from step_shared_inv[OF Cons.prems(1) this]
  have "shared_inv read (get_uv_mc_cubes_step read obj st) (insert obj seen)" .
  moreover from Cons.prems(2) have "distinct (map name objects)" by simp
  moreover from Cons.prems(2,3) have "name ` insert obj seen \<inter> name ` set objects = {}"
    by auto
  ultimately have "shared_inv read
      (fold (get_uv_mc_cubes_step read) objects (get_uv_mc_cubes_step read obj st))
      (insert obj seen \<union> set objects)"
    by (rule Cons.IH)
  then show ?case by simp
qed

text \<open>
  C5, as the specification states it, fails. Two objects of the group \<open>A\<close> and of the
  same size, the first with the property \<^verbatim>\<open>mc_uv\<close> and \<^verbatim>\<open>read_existing_uvs\<close> set,
  get two cubes, and after \<^verbatim>\<open>plan_uv\<close> the cubes are at (5, 5) and at (0, 0).
\<close>

theorem grouped_objects_differ_counterexample:
  "mc_uv_group (grouped_pair ! 0) = mc_uv_group (grouped_pair ! 1) \<and>
   whd (grouped_pair ! 0) = whd (grouped_pair ! 1) \<and>
   fst (get_uv_mc_cubes grouped_pair True (store_of []) 0) ''a'' = Some 0 \<and>
   fst (get_uv_mc_cubes grouped_pair True (store_of []) 0) ''b'' = Some 1 \<and>
   fst (plan_uv by_ref [0, 1] 16 None
          (fst (snd (get_uv_mc_cubes grouped_pair True (store_of []) 0)))) \<and>
   uv (snd (plan_uv by_ref [0, 1] 16 None
          (fst (snd (get_uv_mc_cubes grouped_pair True (store_of []) 0)))) 0) = (5, 5) \<and>
   uv (snd (plan_uv by_ref [0, 1] 16 None
          (fst (snd (get_uv_mc_cubes grouped_pair True (store_of []) 0)))) 1) = (0, 0)"
  by code_simp

text \<open>
  C5, amended. For objects of different names, two objects of the same group and of the
  same rounded size, neither of which has its \<^verbatim>\<open>mc_uv\<close> read (the property is absent
  or \<^verbatim>\<open>read_existing_uvs\<close> is false), are mapped to the same cube: one object, so one
  position, whatever \<^verbatim>\<open>plan_uv\<close> does with it.
\<close>

theorem grouped_objects_share_cube:
  assumes "distinct (map name objects)"
    and "o1 \<in> set objects" and "o2 \<in> set objects"
    and "mc_uv_group o1 = Some g" and "mc_uv_group o2 = Some g"
    and "whd o1 = whd o2"
    and "\<not> (read_existing_uvs \<and> mc_uv o1 \<noteq> None)"
    and "\<not> (read_existing_uvs \<and> mc_uv o2 \<noteq> None)"
  shows "\<exists>r. fst (get_uv_mc_cubes objects read_existing_uvs h n) (name o1) = Some r \<and>
             fst (get_uv_mc_cubes objects read_existing_uvs h n) (name o2) = Some r"
proof -
  let ?st0 = "\<lparr>uv_groups = (\<lambda>g. Map.empty), result = Map.empty, objs = h, next_ref = n\<rparr>"
  have "shared_inv read_existing_uvs ?st0 {}" by (simp add: shared_inv_def)
  from fold_shared_inv[OF this assms(1)]
  have inv: "shared_inv read_existing_uvs
      (fold (get_uv_mc_cubes_step read_existing_uvs) objects ?st0) (set objects)"
    by simp
  from assms(6) have "group_key o1 = group_key o2" by (simp add: group_key_def)
  with inv assms(2-5,7,8) show ?thesis
    unfolding shared_inv_def get_uv_mc_cubes_def Let_def by (simp; metis)
qed

theorem grouped_objects_share_cube_witness:
  "distinct (map name grouped_trio) \<and>
   grouped_trio ! 0 \<in> set grouped_trio \<and> grouped_trio ! 1 \<in> set grouped_trio \<and>
   mc_uv_group (grouped_trio ! 0) = Some ''A'' \<and>
   mc_uv_group (grouped_trio ! 1) = Some ''A'' \<and>
   whd (grouped_trio ! 0) = whd (grouped_trio ! 1) \<and>
   mc_uv (grouped_trio ! 0) = None \<and> mc_uv (grouped_trio ! 1) = None \<and>
   (\<exists>r. fst (get_uv_mc_cubes grouped_trio True (store_of []) 0) (name (grouped_trio ! 0)) = Some r \<and>
        fst (get_uv_mc_cubes grouped_trio True (store_of []) 0) (name (grouped_trio ! 1)) = Some r)"
proof -
  have d: "distinct (map name grouped_trio)"
    and m1: "grouped_trio ! 0 \<in> set grouped_trio"
    and m2: "grouped_trio ! 1 \<in> set grouped_trio"
    and g1: "mc_uv_group (grouped_trio ! 0) = Some ''A''"
    and g2: "mc_uv_group (grouped_trio ! 1) = Some ''A''"
    and sz: "whd (grouped_trio ! 0) = whd (grouped_trio ! 1)"
    and u1: "mc_uv (grouped_trio ! 0) = None"
    and u2: "mc_uv (grouped_trio ! 1) = None"
    by (simp_all add: grouped_trio_def)
  from u1 have n1: "\<not> (True \<and> mc_uv (grouped_trio ! 0) \<noteq> None)" by simp
  from u2 have n2: "\<not> (True \<and> mc_uv (grouped_trio ! 1) \<noteq> None)" by simp
  from grouped_objects_share_cube[OF d m1 m2 g1 g2 sz n1 n2, of "store_of []" 0]
    d m1 m2 g1 g2 sz u1 u2
  show ?thesis by blast
qed

end
